theory Spec2Isabelle
  imports
    Main
    "HOL-Library.AList"
    "HOL-Library.Char_ord"
    "HOL-Library.List_Lexorder"
    "HOL-Library.Multiset"
    "HOL-Library.Product_Lexorder"
begin

section \<open>Values, rows and tables\<close>

text \<open>
  The program in \<^verbatim>\<open>clean/clean_data.py\<close> works on pandas dataframes. A cell of a
  table is a string, an integer or a missing value (what \<^verbatim>\<open>read_csv\<close> produces for an
  empty field). Floating-point cells are outside this model. A row is an association
  list from column labels to cells, a table is its list of column labels together
  with its rows; the labels are kept apart from the rows because a table without rows
  still has columns, and indexing by an unknown label raises \<^verbatim>\<open>KeyError\<close>.
  Strings are byte strings.
\<close>

datatype cell = Str string | Num int | NaN

type_synonym row = "(string \<times> cell) list"

record dataframe =
  columns :: "string list"
  rows :: "row list"

datatype error = ValueError string | KeyError string | TypeError

text \<open>A cell of a row; a label the row does not carry reads as missing.\<close>

definition cell_of :: "row \<Rightarrow> string \<Rightarrow> cell" where
  "cell_of r c = (case map_of r c of Some v \<Rightarrow> v | None \<Rightarrow> NaN)"

text \<open>\<^verbatim>\<open>isinstance(v, str)\<close>\<close>

fun isinstance_str :: "cell \<Rightarrow> bool" where
  "isinstance_str (Str s) = True"
| "isinstance_str (Num n) = False"
| "isinstance_str NaN = False"

section \<open>Python strings\<close>

text \<open>
  \<^verbatim>\<open>s.split(d)\<close> for a one-character delimiter: the tokens between the delimiters; the
  result is never empty (the empty string gives one empty token).
\<close>

fun py_split :: "char \<Rightarrow> string \<Rightarrow> string list" where
  "py_split d [] = [[]]"
| "py_split d (c # cs) =
     (if c = d then [] # py_split d cs
      else (case py_split d cs of
              [] \<Rightarrow> [[c]]
            | t # ts \<Rightarrow> (c # t) # ts))"

text \<open>\<^verbatim>\<open>d.join(xs)\<close> for a list of strings.\<close>

fun py_join :: "string \<Rightarrow> string list \<Rightarrow> string" where
  "py_join d [] = []"
| "py_join d [x] = x"
| "py_join d (x # y # ys) = x @ d @ py_join d (y # ys)"

section \<open>The Deduplicator\<close>

subsection \<open>One value\<close>

text \<open>
  The loop of \<^verbatim>\<open>remove_duplicates\<close>: \<^verbatim>\<open>cleaned_pages\<close> is the accumulator, a page is
  appended when it differs from \<^verbatim>\<open>cleaned_pages[-1]\<close>. The accumulator starts as
  \<^verbatim>\<open>[pages[0]]\<close> and so is never empty.
\<close>

fun dedup_loop :: "string list \<Rightarrow> string list \<Rightarrow> string list" where
  "dedup_loop cleaned_pages [] = cleaned_pages"
| "dedup_loop cleaned_pages (page # pages) =
     (if page \<noteq> last cleaned_pages
      then dedup_loop (cleaned_pages @ [page]) pages
      else dedup_loop cleaned_pages pages)"

fun remove_duplicates :: "cell \<Rightarrow> cell" where
  "remove_duplicates (Str journey) =
     (let pages = py_split CHR ''-'' journey in
      case pages of
        [] \<Rightarrow> Str journey
      | p0 # ps \<Rightarrow> Str (py_join ''-'' (dedup_loop [p0] ps)))"
| "remove_duplicates (Num n) = Num n"
| "remove_duplicates NaN = NaN"

subsection \<open>The scan of the specification\<close>

text \<open>
  The scan as the specification words it: the first token is kept, and then, from left
  to right, a token is kept only if it differs from the last kept token.
\<close>

fun keep_scan :: "string \<Rightarrow> string list \<Rightarrow> string list" where
  "keep_scan last_kept [] = []"
| "keep_scan last_kept (t # ts) =
     (if t \<noteq> last_kept then t # keep_scan t ts else keep_scan last_kept ts)"

fun spec_collapse :: "string list \<Rightarrow> string list" where
  "spec_collapse [] = []"
| "spec_collapse (t # ts) = t # keep_scan t ts"

definition spec_dedup :: "string \<Rightarrow> string" where
  "spec_dedup s = py_join ''-'' (spec_collapse (py_split CHR ''-'' s))"

subsection \<open>The copy and the column assignment\<close>

text \<open>
  \<^verbatim>\<open>df.copy()\<close> allocates a new table, and the assignment to
  \<^verbatim>\<open>df_clean[target_column]\<close> mutates that copy. Tables therefore live in a store, a
  list of tables addressed by position; a reference held by the program always
  addresses a table of the store.
\<close>

type_synonym ref = nat

type_synonym store = "dataframe list"

definition copy :: "store \<Rightarrow> ref \<Rightarrow> store \<times> ref" where
  "copy h p = (h @ [h ! p], length h)"

text \<open>\<^verbatim>\<open>df[c]\<close>: the column as a list of cells, \<^verbatim>\<open>KeyError\<close> for an unknown label.\<close>

definition getitem :: "dataframe \<Rightarrow> string \<Rightarrow> error + cell list" where
  "getitem df c =
     (if c \<in> set (columns df) then Inr (map (\<lambda>r. cell_of r c) (rows df))
      else Inl (KeyError c))"

text \<open>\<^verbatim>\<open>df[c] = vals\<close>: replaces the column in place, or appends a new one.\<close>

definition setitem :: "dataframe \<Rightarrow> string \<Rightarrow> cell list \<Rightarrow> dataframe" where
  "setitem df c vals =
     df\<lparr>columns := (if c \<in> set (columns df) then columns df else columns df @ [c]),
        rows := map (\<lambda>(r, v). AList.update c v r) (zip (rows df) vals)\<rparr>"

text \<open>\<^verbatim>\<open>series.apply(f)\<close>\<close>

definition series_apply :: "(cell \<Rightarrow> cell) \<Rightarrow> cell list \<Rightarrow> cell list" where
  "series_apply f vals = map f vals"

definition remove_page_duplicates :: "store \<Rightarrow> ref \<Rightarrow> string \<Rightarrow> error + store \<times> ref" where
  "remove_page_duplicates h df target_column =
     (let (h1, df_clean) = copy h df in
      case getitem (h1 ! df_clean) target_column of
        Inl e \<Rightarrow> Inl e
      | Inr col \<Rightarrow>
          Inr (h1[df_clean := setitem (h1 ! df_clean) target_column
                                (series_apply remove_duplicates col)],
               df_clean))"

section \<open>Python and pandas operations used by the Grouper\<close>

subsection \<open>Parameters\<close>

text \<open>
  The \<^verbatim>\<open>sessions\<close> argument is a string or an integer (the docstring's
  \<^verbatim>\<open>int or str\<close>); \<^verbatim>\<open>count_from\<close> is a string.
\<close>

datatype pyarg = PStr string | PInt int

text \<open>
  \<^verbatim>\<open>int(sessions)\<close>. On an integer \<^verbatim>\<open>int\<close> is the identity. What the built-in does
  with a string (which spaces and digits it accepts, how many digits) is the
  interpreter's business and not this program's, so the conversion of strings is a
  parameter \<open>int_str\<close> of the Grouper, with \<open>None\<close> for \<^verbatim>\<open>ValueError\<close>; everything proved
  below holds for every such conversion.
\<close>

fun py_int :: "(string \<Rightarrow> int option) \<Rightarrow> pyarg \<Rightarrow> int option" where
  "py_int int_str (PInt n) = Some n"
| "py_int int_str (PStr s) = int_str s"

text \<open>
  \<^verbatim>\<open>s.lower()\<close>, on the letters A to Z. No character beyond ASCII has one of the
  letters of \<^verbatim>\<open>first\<close> and \<^verbatim>\<open>last\<close> as its lower case, so the two comparisons of the
  Grouper come out as in Python.
\<close>

definition lower_char :: "char \<Rightarrow> char" where
  "lower_char c =
     (let n = (of_char c :: nat) in if 65 \<le> n \<and> n \<le> 90 then char_of (n + 32) else c)"

definition lower :: "string \<Rightarrow> string" where
  "lower s = map lower_char s"

subsection \<open>Stringification\<close>

definition digit_char :: "nat \<Rightarrow> char" where
  "digit_char n = char_of (48 + n)"

function str_nat :: "nat \<Rightarrow> string" where
  "str_nat n = (if n < 10 then [digit_char n] else str_nat (n div 10) @ [digit_char (n mod 10)])"
  by pat_completeness auto
termination
  by (relation "measure id") auto

declare str_nat.simps [simp del]

definition str_int :: "int \<Rightarrow> string" where
  "str_int i = (if i < 0 then CHR ''-'' # str_nat (nat (- i)) else str_nat (nat i))"

text \<open>\<^verbatim>\<open>astype(str)\<close> on one cell; a missing value prints as \<^verbatim>\<open>nan\<close>.\<close>

fun py_str :: "cell \<Rightarrow> string" where
  "py_str (Str s) = s"
| "py_str (Num n) = str_int n"
| "py_str NaN = ''nan''"

text \<open>
  \<^verbatim>\<open>'-'.join(xs)\<close> on a list of cells raises \<^verbatim>\<open>TypeError\<close> unless every item is a
  string.
\<close>

definition join_cells :: "string \<Rightarrow> cell list \<Rightarrow> error + string" where
  "join_cells d vs =
     (if list_all isinstance_str vs then Inr (py_join d (map py_str vs)) else Inl TypeError)"

subsection \<open>Series and table operations\<close>

text \<open>
  \<^verbatim>\<open>unique()\<close>: a scan that remembers the values seen so far and returns each value at
  its first appearance.
\<close>

fun unique_scan :: "'a list \<Rightarrow> 'a list \<Rightarrow> 'a list" where
  "unique_scan seen [] = []"
| "unique_scan seen (x # xs) =
     (if x \<in> set seen then unique_scan seen xs else x # unique_scan (x # seen) xs)"

definition unique :: "'a list \<Rightarrow> 'a list" where
  "unique xs = unique_scan [] xs"

text \<open>
  Python slices \<^verbatim>\<open>xs[:n]\<close> and \<^verbatim>\<open>xs[m:]\<close>: a negative bound counts from the end, and
  bounds are clipped to the list. \<^verbatim>\<open>head(n)\<close> is \<^verbatim>\<open>iloc[:n]\<close>; \<^verbatim>\<open>tail(n)\<close> is empty for
  \<^verbatim>\<open>n == 0\<close> and \<^verbatim>\<open>iloc[-n:]\<close> otherwise.
\<close>

definition slice_to :: "'a list \<Rightarrow> int \<Rightarrow> 'a list" where
  "slice_to xs n = (if n < 0 then take (nat (int (length xs) + n)) xs else take (nat n) xs)"

definition slice_from :: "'a list \<Rightarrow> int \<Rightarrow> 'a list" where
  "slice_from xs m = (if m < 0 then drop (nat (int (length xs) + m)) xs else drop (nat m) xs)"

definition head :: "'a list \<Rightarrow> int \<Rightarrow> 'a list" where
  "head xs n = slice_to xs n"

definition tail :: "'a list \<Rightarrow> int \<Rightarrow> 'a list" where
  "tail xs n = (if n = 0 then [] else slice_from xs (- n))"

text \<open>
  \<^verbatim>\<open>sort_values(by=[...])\<close> with more than one label is a stable lexicographic sort on
  the listed columns, ascending; within a column numbers come before strings and
  missing values come last. An unknown label raises \<^verbatim>\<open>KeyError\<close>.
\<close>

fun sort_rank :: "cell \<Rightarrow> nat \<times> int \<times> string" where
  "sort_rank (Num n) = (0, n, [])"
| "sort_rank (Str s) = (1, 0, s)"
| "sort_rank NaN = (2, 0, [])"

definition sort_keys :: "string list \<Rightarrow> row \<Rightarrow> (nat \<times> int \<times> string) list" where
  "sort_keys labels r = map (\<lambda>c. sort_rank (cell_of r c)) labels"

definition sort_values :: "dataframe \<Rightarrow> string list \<Rightarrow> error + dataframe" where
  "sort_values df labels =
     (case filter (\<lambda>c. c \<notin> set (columns df)) labels of
        c # cs \<Rightarrow> Inl (KeyError c)
      | [] \<Rightarrow> Inr (df\<lparr>rows := sort_key (sort_keys labels) (rows df)\<rparr>))"

text \<open>
  \<^verbatim>\<open>groupby(c, sort=False)\<close>, iterated: one pair of key and group per distinct key, in
  the order in which the keys first appear; a group holds the rows of its key in table
  order. Rows whose key is missing belong to no group (pandas' default
  \<^verbatim>\<open>dropna=True\<close>).
\<close>

definition groupby :: "dataframe \<Rightarrow> string \<Rightarrow> (cell \<times> row list) list" where
  "groupby df c =
     map (\<lambda>k. (k, filter (\<lambda>r. cell_of r c = k) (rows df)))
       (unique (filter (\<lambda>k. k \<noteq> NaN) (map (\<lambda>r. cell_of r c) (rows df))))"

text \<open>
  A dict literal: a later entry with the same key replaces the value of the earlier
  one and keeps its position.
\<close>

definition dict :: "(string \<times> cell) list \<Rightarrow> row" where
  "dict kvs = foldl (\<lambda>d (k, v). AList.update k v d) [] kvs"

text \<open>
  \<^verbatim>\<open>pd.DataFrame(records)\<close> for a list of dicts: the columns are the keys in the order
  in which they first appear, a key that a record lacks is a missing value.
\<close>

definition DataFrame :: "row list \<Rightarrow> dataframe" where
  "DataFrame recs =
     (let cols = unique (concat (map (map fst) recs))
      in \<lparr>columns = cols, rows = map (\<lambda>r. map (\<lambda>c. (c, cell_of r c)) cols) recs\<rparr>)"

section \<open>The Grouper\<close>

text \<open>The window of one group: the \<^verbatim>\<open>if sessions == 'All'\<close> statement of the loop body.\<close>

definition select_subset ::
  "(string \<Rightarrow> int option) \<Rightarrow> pyarg \<Rightarrow> string \<Rightarrow> row list \<Rightarrow> error + row list" where
  "select_subset int_str sessions count_from group_df =
     (if sessions = PStr ''All'' then Inr group_df
      else
        (case py_int int_str sessions of
           None \<Rightarrow> Inl (ValueError ''The sessions parameter must be an integer or 'All'.'')
         | Some session_count \<Rightarrow>
             if lower count_from = ''first'' then Inr (head group_df session_count)
             else if lower count_from = ''last'' then Inr (tail group_df session_count)
             else Inl (ValueError ''count_from must be either 'first' or 'last'.'')))"

text \<open>
  The rest of the loop body: the three joins and the new record. \<open>sub_df\<close> holds the
  rows of \<^verbatim>\<open>subset\<close>, and \<open>cols\<close> are the columns of the sorted table, which every
  group shares.
\<close>

definition fold_subset ::
  "string list \<Rightarrow> string \<Rightarrow> string \<Rightarrow> string \<Rightarrow> string \<Rightarrow> cell \<Rightarrow> row list \<Rightarrow> error + row" where
  "fold_subset cols group_column target_column session_id subscription_type group_name sub_df =
     (let sub = \<lparr>columns = cols, rows = sub_df\<rparr> in
      case getitem sub target_column of Inl e \<Rightarrow> Inl e | Inr journeys \<Rightarrow>
      case join_cells ''-'' journeys of Inl e \<Rightarrow> Inl e | Inr grouped_journey \<Rightarrow>
      case getitem sub session_id of Inl e \<Rightarrow> Inl e | Inr sids \<Rightarrow>
      let grouped_sessions = py_join ''-'' (map py_str sids) in
      case getitem sub subscription_type of Inl e \<Rightarrow> Inl e | Inr subs \<Rightarrow>
      let grouped_subscription = py_join ''-'' (unique (map py_str subs)) in
      Inr (dict [(group_column, group_name),
                 (session_id, Str grouped_sessions),
                 (subscription_type, Str grouped_subscription),
                 (target_column, Str grouped_journey)]))"

definition group_body ::
  "(string \<Rightarrow> int option) \<Rightarrow> string list \<Rightarrow> string \<Rightarrow> string \<Rightarrow> string \<Rightarrow> string \<Rightarrow>
   pyarg \<Rightarrow> string \<Rightarrow> cell \<times> row list \<Rightarrow> error + row" where
  "group_body int_str cols group_column target_column session_id subscription_type
     sessions count_from g =
     (case select_subset int_str sessions count_from (snd g) of
        Inl e \<Rightarrow> Inl e
      | Inr sub_df \<Rightarrow>
          fold_subset cols group_column target_column session_id subscription_type (fst g) sub_df)"

text \<open>
  The \<^verbatim>\<open>for\<close> loop over the groups: the first group whose body raises ends the run,
  otherwise the record is appended to \<^verbatim>\<open>grouped_records\<close>.
\<close>

fun group_loop ::
  "(cell \<times> row list \<Rightarrow> error + row) \<Rightarrow> (cell \<times> row list) list \<Rightarrow> row list \<Rightarrow> error + row list" where
  "group_loop body [] grouped_records = Inr grouped_records"
| "group_loop body (g # gs) grouped_records =
     (case body g of
        Inl e \<Rightarrow> Inl e
      | Inr rec \<Rightarrow> group_loop body gs (grouped_records @ [rec]))"

definition group_by ::
  "(string \<Rightarrow> int option) \<Rightarrow> dataframe \<Rightarrow> string \<Rightarrow> string \<Rightarrow> string \<Rightarrow> string \<Rightarrow>
   pyarg \<Rightarrow> string \<Rightarrow> error + dataframe" where
  "group_by int_str data group_column target_column session_id subscription_type
     sessions count_from =
     (case sort_values data [group_column, session_id] of
        Inl e \<Rightarrow> Inl e
      | Inr data' \<Rightarrow>
          (case group_loop
                  (group_body int_str (columns data') group_column target_column session_id
                     subscription_type sessions count_from)
                  (groupby data' group_column) [] of
             Inl e \<Rightarrow> Inl e
           | Inr grouped_records \<Rightarrow> Inr (DataFrame grouped_records)))"

text \<open>
  The values of a list at the positions where they occur for the first time, in the
  order of these positions: the specification's "unique values, first-occurrence
  order".
\<close>

definition first_occurrences :: "'a list \<Rightarrow> 'a list" where
  "first_occurrences xs =
     map (\<lambda>i. xs ! i) (filter (\<lambda>i. xs ! i \<notin> set (take i xs)) [0..<length xs])"

section \<open>Example tables\<close>

definition journeys :: dataframe where
  "journeys =
     \<lparr>columns = [''user_id'', ''session_id'', ''subscription_type'', ''user_journey''],
      rows =
        [[(''user_id'', Num 1), (''session_id'', Num 1), (''subscription_type'', Str ''free''),
          (''user_journey'', Str ''A-A-B-B-B-C'')],
         [(''user_id'', Num 1), (''session_id'', Num 2), (''subscription_type'', Str ''free''),
          (''user_journey'', NaN)]]\<rparr>"

text \<open>
  Five sessions in input order. The second and the fifth row agree on user and session,
  the fourth row has no user.
\<close>

definition visits :: dataframe where
  "visits =
     \<lparr>columns = [''user_id'', ''session_id'', ''subscription_type'', ''user_journey''],
      rows =
        [[(''user_id'', Str ''u2''), (''session_id'', Num 5), (''subscription_type'', Str ''free''),
          (''user_journey'', Str ''A-B'')],
         [(''user_id'', Str ''u1''), (''session_id'', Num 2), (''subscription_type'', Str ''pro''),
          (''user_journey'', Str ''B-C'')],
         [(''user_id'', Str ''u1''), (''session_id'', Num 1), (''subscription_type'', Str ''free''),
          (''user_journey'', Str ''A-B'')],
         [(''user_id'', NaN), (''session_id'', Num 1), (''subscription_type'', Str ''free''),
          (''user_journey'', Str ''X'')],
         [(''user_id'', Str ''u1''), (''session_id'', Num 2), (''subscription_type'', Str ''free''),
          (''user_journey'', Str ''C-D'')]]\<rparr>"

text \<open>What the Grouper returns for \<open>visits\<close> with all sessions.\<close>

definition visits_grouped :: dataframe where
  "visits_grouped =
     \<lparr>columns = [''user_id'', ''session_id'', ''subscription_type'', ''user_journey''],
      rows =
        [[(''user_id'', Str ''u1''), (''session_id'', Str ''1-2-2''),
          (''subscription_type'', Str ''free-pro''), (''user_journey'', Str ''A-B-B-C-C-D'')],
         [(''user_id'', Str ''u2''), (''session_id'', Str ''5''),
          (''subscription_type'', Str ''free''), (''user_journey'', Str ''A-B'')]]\<rparr>"

section \<open>Properties of splitting and joining\<close>

lemma py_split_not_Nil: "py_split d s \<noteq> []"
  by (induction s) (auto split: list.splits)

lemma py_split_no_delim: "t \<in> set (py_split d s) \<Longrightarrow> d \<notin> set t"
proof (induction s arbitrary: t)
  case Nil
  then show ?case by simp
next
  case (Cons c cs)
  show ?case
  proof (cases "c = d")
    case True
    with Cons show ?thesis by auto
  next
    case False
    obtain u us where us: "py_split d cs = u # us"
      using py_split_not_Nil [of d cs] by (cases "py_split d cs") auto
    with False Cons.prems have "t = c # u \<or> t \<in> set us" by auto
    then show ?thesis
    proof
      assume "t = c # u"
      moreover have "d \<notin> set u" using Cons.IH [of u] us by simp
      ultimately show ?thesis using False by auto
    next
      assume "t \<in> set us"
      then show ?thesis using Cons.IH [of t] us by simp
    qed
  qed
qed

lemma py_split_single: "d \<notin> set s \<Longrightarrow> py_split d s = [s]"
  by (induction s) auto

lemma py_join_split: "py_join [d] (py_split d s) = s"
proof (induction s)
  case Nil
  then show ?case by simp
next
  case (Cons c cs)
  obtain u us where us: "py_split d cs = u # us"
    using py_split_not_Nil [of d cs] by (cases "py_split d cs") auto
  show ?case
  proof (cases "c = d")
    case True
    with Cons us show ?thesis by simp
  next
    case False
    with Cons us show ?thesis by (cases us) auto
  qed
qed

lemma py_split_append_delim:
  "d \<notin> set t \<Longrightarrow> py_split d (t @ d # s) = t # py_split d s"
  by (induction t) auto

lemma py_split_join:
  "ts \<noteq> [] \<Longrightarrow> \<forall>t \<in> set ts. d \<notin> set t \<Longrightarrow> py_split d (py_join [d] ts) = ts"
proof (induction ts rule: induct_list012)
  case 1
  then show ?case by simp
next
  case (2 x)
  then show ?case by (simp add: py_split_single)
next
  case (3 x y ys)
  then show ?case by (simp add: py_split_append_delim)
qed

section \<open>Properties of the scan\<close>

lemma dedup_loop_keep_scan:
  "acc \<noteq> [] \<Longrightarrow> dedup_loop acc ps = acc @ keep_scan (last acc) ps"
  by (induction ps arbitrary: acc) auto

lemma keep_scan_remdups_adj: "t # keep_scan t ts = remdups_adj (t # ts)"
  by (induction ts arbitrary: t) auto

lemma spec_collapse_remdups_adj: "spec_collapse ts = remdups_adj ts"
proof (cases ts)
  case Nil
  then show ?thesis by simp
next
  case (Cons t us)
  then show ?thesis using keep_scan_remdups_adj [of t us] by simp
qed

lemma remove_duplicates_Str:
  "remove_duplicates (Str s) = Str (py_join ''-'' (remdups_adj (py_split CHR ''-'' s)))"
proof -
  obtain p0 ps where ps: "py_split CHR ''-'' s = p0 # ps"
    using py_split_not_Nil [of "CHR ''-''" s] by (cases "py_split CHR ''-'' s") auto
  have "dedup_loop [p0] ps = remdups_adj (p0 # ps)"
    using dedup_loop_keep_scan [of "[p0]" ps] keep_scan_remdups_adj [of p0 ps] by simp
  with ps show ?thesis by simp
qed

lemma remdups_adj_idem: "remdups_adj (remdups_adj xs) = remdups_adj xs"
  using distinct_adj_remdups_adj [of xs] by (simp only: distinct_adj_altdef)

lemma remove_duplicates_idem: "remove_duplicates (remove_duplicates v) = remove_duplicates v"
proof (cases v)
  case (Str s)
  let ?ts = "remdups_adj (py_split CHR ''-'' s)"
  have ne: "?ts \<noteq> []" by (simp add: py_split_not_Nil)
  have nd: "\<forall>t \<in> set ?ts. CHR ''-'' \<notin> set t"
    using py_split_no_delim [of _ "CHR ''-''" s] by simp
  have "py_split CHR ''-'' (py_join ''-'' ?ts) = ?ts"
    using py_split_join [OF ne nd] by simp
  then show ?thesis
    using Str by (simp add: remove_duplicates_Str remdups_adj_idem del: remove_duplicates.simps)
next
  case (Num n)
  then show ?thesis by simp
next
  case NaN
  then show ?thesis by simp
qed

section \<open>The Deduplicator on a table\<close>

lemma map_zip_same:
  "map (\<lambda>(r, v). g r v) (zip xs (map f xs)) = map (\<lambda>r. g r (f r)) xs"
  by (induction xs) auto

lemma remove_page_duplicates_eq:
  assumes "df < length h"
  shows "remove_page_duplicates h df c =
     (if c \<in> set (columns (h ! df))
      then Inr (h @ [(h ! df)\<lparr>rows :=
                  map (\<lambda>r. AList.update c (remove_duplicates (cell_of r c)) r) (rows (h ! df))\<rparr>],
                length h)
      else Inl (KeyError c))"
  using assms
  by (simp add: remove_page_duplicates_def copy_def getitem_def setitem_def series_apply_def
      map_zip_same Let_def)

lemma cell_of_update_same: "cell_of (AList.update c v r) c = v"
  by (simp add: cell_of_def update_conv')

lemma map_of_update_other: "c' \<noteq> c \<Longrightarrow> map_of (AList.update c v r) c' = map_of r c'"
  by (simp add: update_conv')

lemma remove_duplicates_not_str: "\<not> isinstance_str v \<Longrightarrow> remove_duplicates v = v"
  by (cases v) simp_all

text \<open>
  Claim C3. On a string the Deduplicator returns what the specification's scan
  returns: the string is split on the hyphen, the first token is kept, every further
  token is kept only if it differs from the last kept one, and the kept tokens are
  joined with hyphens. A string without a hyphen and the empty string come back
  unchanged, and \<^verbatim>\<open>A-A-B-B-B-C\<close> becomes \<^verbatim>\<open>A-B-C\<close>.
\<close>

theorem remove_duplicates_string:
  "remove_duplicates (Str s) = Str (spec_dedup s)
   \<and> (CHR ''-'' \<notin> set s \<longrightarrow> remove_duplicates (Str s) = Str s)
   \<and> remove_duplicates (Str '''') = Str ''''
   \<and> remove_duplicates (Str ''A-A-B-B-B-C'') = Str ''A-B-C''"
proof -
  have a: "remove_duplicates (Str s) = Str (spec_dedup s)"
    by (simp only: remove_duplicates_Str spec_dedup_def spec_collapse_remdups_adj)
  have b: "CHR ''-'' \<notin> set s \<longrightarrow> remove_duplicates (Str s) = Str s"
    by (simp add: py_split_single)
  have c: "remove_duplicates (Str '''') = Str ''''"
    by simp
  have d: "remove_duplicates (Str ''A-A-B-B-B-C'') = Str ''A-B-C''"
    by code_simp
  from a b c d show ?thesis by blast
qed

theorem remove_duplicates_string_witness:
  "CHR ''-'' \<notin> set ''X'' \<and> remove_duplicates (Str ''X'') = Str ''X''
   \<and> remove_duplicates (Str ''X'') = Str (spec_dedup ''X'')"
  using remove_duplicates_string [of "''X''"] by simp

text \<open>
  Claim C4. The Deduplicator is idempotent: when it has produced a table, applying it
  to that table again succeeds and produces an equal table.
\<close>

theorem remove_page_duplicates_idempotent:
  assumes "df < length h"
    and "remove_page_duplicates h df target_column = Inr (h1, d1)"
  shows "\<exists>h2 d2. remove_page_duplicates h1 d1 target_column = Inr (h2, d2) \<and> h2 ! d2 = h1 ! d1"
proof -
  let ?f = "\<lambda>r. AList.update target_column (remove_duplicates (cell_of r target_column)) r"
  from assms have c: "target_column \<in> set (columns (h ! df))"
    and h1: "h1 = h @ [(h ! df)\<lparr>rows := map ?f (rows (h ! df))\<rparr>]"
    and d1: "d1 = length h"
    by (auto simp: remove_page_duplicates_eq split: if_splits)
  have lt: "d1 < length h1" using h1 d1 by simp
  have at: "h1 ! d1 = (h ! df)\<lparr>rows := map ?f (rows (h ! df))\<rparr>" using h1 d1 by simp
  have "remove_page_duplicates h1 d1 target_column =
          Inr (h1 @ [(h1 ! d1)\<lparr>rows := map ?f (rows (h1 ! d1))\<rparr>], length h1)"
    using c by (simp add: remove_page_duplicates_eq [OF lt] at)
  moreover have "(h1 ! d1)\<lparr>rows := map ?f (rows (h1 ! d1))\<rparr> = h1 ! d1"
    by (simp add: at o_def cell_of_update_same remove_duplicates_idem)
  ultimately show ?thesis by simp
qed

theorem remove_page_duplicates_idempotent_witness:
  "(0::nat) < length [journeys]
   \<and> (\<exists>h1 d1. remove_page_duplicates [journeys] 0 ''user_journey'' = Inr (h1, d1)
        \<and> (\<exists>h2 d2. remove_page_duplicates h1 d1 ''user_journey'' = Inr (h2, d2)
              \<and> h2 ! d2 = h1 ! d1))"
proof -
  have lt: "(0::nat) < length [journeys]" by simp
  obtain h1 d1 where r: "remove_page_duplicates [journeys] 0 ''user_journey'' = Inr (h1, d1)"
    by (simp add: remove_page_duplicates_eq journeys_def)
  from remove_page_duplicates_idempotent [OF lt r] lt r show ?thesis by blast
qed

text \<open>
  Claim C8. When the target column exists the Deduplicator raises nothing; the table
  it returns is a new one, the tables already in the store (the input among them) are
  as they were; a value of the target column that is not a string is the same in the
  output, and every other column of every row is the same.
\<close>

theorem remove_page_duplicates_passthrough:
  assumes "df < length h"
    and "target_column \<in> set (columns (h ! df))"
  shows "\<exists>h1 d1. remove_page_duplicates h df target_column = Inr (h1, d1)
     \<and> d1 \<noteq> df \<and> take (length h) h1 = h \<and> h1 ! df = h ! df
     \<and> columns (h1 ! d1) = columns (h ! df)
     \<and> length (rows (h1 ! d1)) = length (rows (h ! df))
     \<and> (\<forall>i < length (rows (h ! df)).
          (\<not> isinstance_str (cell_of (rows (h ! df) ! i) target_column) \<longrightarrow>
             cell_of (rows (h1 ! d1) ! i) target_column =
             cell_of (rows (h ! df) ! i) target_column)
          \<and> (\<forall>c. c \<noteq> target_column \<longrightarrow>
                 map_of (rows (h1 ! d1) ! i) c = map_of (rows (h ! df) ! i) c))"
  using assms
  by (simp add: remove_page_duplicates_eq nth_append cell_of_update_same
      map_of_update_other remove_duplicates_not_str)

theorem remove_page_duplicates_passthrough_witness:
  "(0::nat) < length [journeys] \<and> ''user_journey'' \<in> set (columns ([journeys] ! 0))
   \<and> \<not> isinstance_str (cell_of (rows journeys ! 1) ''user_journey'')
   \<and> remove_page_duplicates [journeys] 0 ''user_journey'' =
       Inr ([journeys,
             journeys\<lparr>rows :=
               [[(''user_id'', Num 1), (''session_id'', Num 1),
                 (''subscription_type'', Str ''free''), (''user_journey'', Str ''A-B-C'')],
                [(''user_id'', Num 1), (''session_id'', Num 2),
                 (''subscription_type'', Str ''free''), (''user_journey'', NaN)]]\<rparr>], 1)"
  using remove_page_duplicates_passthrough [of 0 "[journeys]" "''user_journey''"]
  by (simp add: journeys_def remove_page_duplicates_eq cell_of_def)

section \<open>Sorting before grouping\<close>

lemma sort_rank_inj: "sort_rank a = sort_rank b \<longleftrightarrow> a = b"
  by (cases a; cases b) simp_all

lemma pair_keys_le: "[a, b] \<le> [c, d] \<longleftrightarrow> (a, b) \<le> (c, d)" for a b c d :: "'a::linorder"
  by (auto simp: less_eq_prod_def)

lemma sort_values_ok:
  "set labels \<subseteq> set (columns df) \<Longrightarrow>
   sort_values df labels = Inr (df\<lparr>rows := sort_key (sort_keys labels) (rows df)\<rparr>)"
proof -
  assume "set labels \<subseteq> set (columns df)"
  then have "filter (\<lambda>c. c \<notin> set (columns df)) labels = []" by (auto simp: filter_empty_conv)
  then show ?thesis by (simp add: sort_values_def)
qed

lemma sort_values_error: "sort_values df labels = Inl e \<Longrightarrow> \<exists>c. e = KeyError c"
  by (auto simp: sort_values_def split: list.splits)

lemma sort_values_Inr:
  "sort_values df labels = Inr df' \<Longrightarrow>
   df' = df\<lparr>rows := sort_key (sort_keys labels) (rows df)\<rparr> \<and> set labels \<subseteq> set (columns df)"
  by (auto simp: sort_values_def filter_empty_conv split: list.splits)

lemma sort_key_pair_properties:
  shows "mset (sort_key (sort_keys [gc, sid]) rs) = mset rs"
    and "sorted (map (\<lambda>r. (sort_rank (cell_of r gc), sort_rank (cell_of r sid)))
                   (sort_key (sort_keys [gc, sid]) rs))"
    and "filter (\<lambda>r. cell_of r gc = k \<and> cell_of r sid = s) (sort_key (sort_keys [gc, sid]) rs) =
         filter (\<lambda>r. cell_of r gc = k \<and> cell_of r sid = s) rs"
proof -
  let ?f = "sort_keys [gc, sid]"
  let ?p = "\<lambda>r. (sort_rank (cell_of r gc), sort_rank (cell_of r sid))"
  let ?rs = "sort_key ?f rs"
  show "mset ?rs = mset rs" by simp
  have kle: "?f x \<le> ?f y \<longleftrightarrow> ?p x \<le> ?p y" for x y
    by (simp only: sort_keys_def list.map pair_keys_le)
  have "sorted_wrt (\<lambda>x y. ?f x \<le> ?f y) ?rs"
    using sorted_sort_key [of ?f rs] by (simp only: sorted_map)
  then have "sorted_wrt (\<lambda>x y. ?p x \<le> ?p y) ?rs"
    by (simp only: kle)
  then show "sorted (map ?p ?rs)"
    by (simp only: sorted_map)
  have eq: "(cell_of r gc = k \<and> cell_of r sid = s) \<longleftrightarrow> ?f r = [sort_rank k, sort_rank s]" for r
    by (simp add: sort_keys_def sort_rank_inj)
  show "filter (\<lambda>r. cell_of r gc = k \<and> cell_of r sid = s) ?rs =
        filter (\<lambda>r. cell_of r gc = k \<and> cell_of r sid = s) rs"
    using sort_key_stable [of ?f "[sort_rank k, sort_rank s]" rs]
    by (simp only: eq)
qed

text \<open>A permutation that is ascending in the pair of keys and stable is the sorted list.\<close>

lemma stable_sorted_unique:
  assumes "mset ys = mset rs"
    and "sorted (map (\<lambda>r. (sort_rank (cell_of r gc), sort_rank (cell_of r sid))) ys)"
    and "\<forall>k s. filter (\<lambda>r. cell_of r gc = k \<and> cell_of r sid = s) ys =
               filter (\<lambda>r. cell_of r gc = k \<and> cell_of r sid = s) rs"
  shows "ys = sort_key (sort_keys [gc, sid]) rs"
proof -
  let ?f = "sort_keys [gc, sid]"
  let ?p = "\<lambda>r. (sort_rank (cell_of r gc), sort_rank (cell_of r sid))"
  have kle: "?f x \<le> ?f y \<longleftrightarrow> ?p x \<le> ?p y" for x y
    by (simp only: sort_keys_def list.map pair_keys_le)
  have "sorted_wrt (\<lambda>x y. ?p x \<le> ?p y) ys"
    using assms(2) by (simp only: sorted_map)
  then have "sorted_wrt (\<lambda>x y. ?f x \<le> ?f y) ys"
    by (simp only: kle)
  then have srt: "sorted (map ?f ys)"
    by (simp only: sorted_map)
  have st: "filter (\<lambda>x. ?f k = ?f x) ys = filter (\<lambda>x. ?f k = ?f x) rs" for k
  proof -
    have eq: "?f k = ?f x \<longleftrightarrow> cell_of x gc = cell_of k gc \<and> cell_of x sid = cell_of k sid" for x
      by (auto simp: sort_keys_def sort_rank_inj)
    show ?thesis using assms(3) by (simp only: eq)
  qed
  from properties_for_sort_key [OF assms(1) st srt] show ?thesis by simp
qed

text \<open>
  Claim C2. When the grouping column and the session column exist, the Grouper groups
  a sorted copy of its input: there is a list of rows that is a permutation of the
  input rows, ascending in the pair (grouping key, session id), with the rows that
  agree on both keys in the order they had in the input; it is the only such list; and
  the result of the Grouper is the result of the grouping loop on the groups of that
  list.
\<close>

theorem group_by_sorts_before_grouping:
  assumes "group_column \<in> set (columns data)" and "session_id \<in> set (columns data)"
  shows "\<exists>srt.
       mset srt = mset (rows data)
     \<and> sorted (map (\<lambda>r. (sort_rank (cell_of r group_column), sort_rank (cell_of r session_id))) srt)
     \<and> (\<forall>k s. filter (\<lambda>r. cell_of r group_column = k \<and> cell_of r session_id = s) srt =
               filter (\<lambda>r. cell_of r group_column = k \<and> cell_of r session_id = s) (rows data))
     \<and> (\<forall>ys. mset ys = mset (rows data)
             \<and> sorted (map (\<lambda>r. (sort_rank (cell_of r group_column),
                                    sort_rank (cell_of r session_id))) ys)
             \<and> (\<forall>k s. filter (\<lambda>r. cell_of r group_column = k \<and> cell_of r session_id = s) ys =
                       filter (\<lambda>r. cell_of r group_column = k \<and> cell_of r session_id = s)
                         (rows data))
             \<longrightarrow> ys = srt)
     \<and> group_by int_str data group_column target_column session_id subscription_type
          sessions count_from =
         (case group_loop
                 (group_body int_str (columns data) group_column target_column session_id
                    subscription_type sessions count_from)
                 (groupby (data\<lparr>rows := srt\<rparr>) group_column) [] of
            Inl e \<Rightarrow> Inl e
          | Inr grouped_records \<Rightarrow> Inr (DataFrame grouped_records))"
proof -
  let ?srt = "sort_key (sort_keys [group_column, session_id]) (rows data)"
  have ok: "sort_values data [group_column, session_id] = Inr (data\<lparr>rows := ?srt\<rparr>)"
    using assms by (simp add: sort_values_ok)
  have run: "group_by int_str data group_column target_column session_id subscription_type
          sessions count_from =
         (case group_loop
                 (group_body int_str (columns data) group_column target_column session_id
                    subscription_type sessions count_from)
                 (groupby (data\<lparr>rows := ?srt\<rparr>) group_column) [] of
            Inl e \<Rightarrow> Inl e
          | Inr grouped_records \<Rightarrow> Inr (DataFrame grouped_records))"
    by (simp add: group_by_def ok)
  have uniq: "\<forall>ys. mset ys = mset (rows data)
             \<and> sorted (map (\<lambda>r. (sort_rank (cell_of r group_column),
                                    sort_rank (cell_of r session_id))) ys)
             \<and> (\<forall>k s. filter (\<lambda>r. cell_of r group_column = k \<and> cell_of r session_id = s) ys =
                       filter (\<lambda>r. cell_of r group_column = k \<and> cell_of r session_id = s)
                         (rows data))
             \<longrightarrow> ys = ?srt"
    using stable_sorted_unique by blast
  have stab: "\<forall>k s. filter (\<lambda>r. cell_of r group_column = k \<and> cell_of r session_id = s) ?srt =
               filter (\<lambda>r. cell_of r group_column = k \<and> cell_of r session_id = s) (rows data)"
    using sort_key_pair_properties(3) by blast
  from sort_key_pair_properties(1) [of group_column session_id "rows data"]
    sort_key_pair_properties(2) [of group_column session_id "rows data"] stab uniq run
  show ?thesis by blast
qed

text \<open>
  In \<open>visits\<close> the rows of user \<open>u1\<close> come in the session order 2, 1, 2. Grouped, the
  sessions read 1, 2, 2 and the two journeys of session 2 stand in input order. With
  \<^verbatim>\<open>sessions = 'All'\<close> no string is converted, so the conversion is left empty.
\<close>

theorem group_by_sorts_before_grouping_witness:
  "''user_id'' \<in> set (columns visits) \<and> ''session_id'' \<in> set (columns visits)
   \<and> group_by Map.empty visits ''user_id'' ''user_journey'' ''session_id'' ''subscription_type''
       (PStr ''All'') ''last'' = Inr visits_grouped
   \<and> (\<exists>srt. mset srt = mset (rows visits)
         \<and> filter (\<lambda>r. cell_of r ''user_id'' = Str ''u1'' \<and> cell_of r ''session_id'' = Num 2) srt =
            [[(''user_id'', Str ''u1''), (''session_id'', Num 2),
              (''subscription_type'', Str ''pro''), (''user_journey'', Str ''B-C'')],
             [(''user_id'', Str ''u1''), (''session_id'', Num 2),
              (''subscription_type'', Str ''free''), (''user_journey'', Str ''C-D'')]]
         \<and> (case group_loop
                   (group_body Map.empty (columns visits) ''user_id'' ''user_journey''
                      ''session_id'' ''subscription_type'' (PStr ''All'') ''last'')
                   (groupby (visits\<lparr>rows := srt\<rparr>) ''user_id'') [] of
              Inl e \<Rightarrow> Inl e
            | Inr grouped_records \<Rightarrow> Inr (DataFrame grouped_records)) = Inr visits_grouped)"
proof -
  have a: "''user_id'' \<in> set (columns visits)" by (simp add: visits_def)
  have b: "''session_id'' \<in> set (columns visits)" by (simp add: visits_def)
  have c: "group_by Map.empty visits ''user_id'' ''user_journey'' ''session_id''
             ''subscription_type'' (PStr ''All'') ''last'' = Inr visits_grouped"
    by code_simp
  have d: "filter (\<lambda>r. cell_of r ''user_id'' = Str ''u1'' \<and> cell_of r ''session_id'' = Num 2)
             (rows visits) =
            [[(''user_id'', Str ''u1''), (''session_id'', Num 2),
              (''subscription_type'', Str ''pro''), (''user_journey'', Str ''B-C'')],
             [(''user_id'', Str ''u1''), (''session_id'', Num 2),
              (''subscription_type'', Str ''free''), (''user_journey'', Str ''C-D'')]]"
    by (simp add: visits_def cell_of_def)
  from group_by_sorts_before_grouping [OF a b, of Map.empty "''user_journey''"
         "''subscription_type''" "PStr ''All''" "''last''"]
  obtain srt where m: "mset srt = mset (rows visits)"
    and f: "filter (\<lambda>r. cell_of r ''user_id'' = Str ''u1'' \<and> cell_of r ''session_id'' = Num 2) srt =
            filter (\<lambda>r. cell_of r ''user_id'' = Str ''u1'' \<and> cell_of r ''session_id'' = Num 2)
              (rows visits)"
    and g: "group_by Map.empty visits ''user_id'' ''user_journey'' ''session_id''
             ''subscription_type'' (PStr ''All'') ''last'' =
         (case group_loop
                 (group_body Map.empty (columns visits) ''user_id'' ''user_journey'' ''session_id''
                    ''subscription_type'' (PStr ''All'') ''last'')
                 (groupby (visits\<lparr>rows := srt\<rparr>) ''user_id'') [] of
            Inl e \<Rightarrow> Inl e
          | Inr grouped_records \<Rightarrow> Inr (DataFrame grouped_records))"
    by blast
  from a b c m f d g show ?thesis by (intro conjI exI [of _ srt]) simp_all
qed

section \<open>The loop over the groups\<close>

lemma select_subset_All: "select_subset int_str (PStr ''All'') count_from group_df = Inr group_df"
  by (simp add: select_subset_def)

lemma group_loop_Inl:
  "group_loop body gs acc = Inl e \<Longrightarrow> \<exists>g \<in> set gs. body g = Inl e"
  by (induction gs arbitrary: acc) (auto split: sum.splits)

lemma group_loop_Inr:
  "group_loop body gs acc = Inr recs \<Longrightarrow>
   \<exists>rs. recs = acc @ rs \<and> list_all2 (\<lambda>g r. body g = Inr r) gs rs"
proof (induction gs arbitrary: acc)
  case Nil
  then show ?case by simp
next
  case (Cons g gs)
  from Cons.prems obtain r where r: "body g = Inr r"
    and rest: "group_loop body gs (acc @ [r]) = Inr recs"
    by (auto split: sum.splits)
  from Cons.IH [OF rest] obtain rs where "recs = (acc @ [r]) @ rs"
    and "list_all2 (\<lambda>g r. body g = Inr r) gs rs" by blast
  with r have "recs = acc @ (r # rs) \<and> list_all2 (\<lambda>g r. body g = Inr r) (g # gs) (r # rs)"
    by simp
  then show ?case by blast
qed

lemma getitem_error: "getitem df c = Inl e \<Longrightarrow> e = KeyError c"
  by (auto simp: getitem_def split: if_splits)

lemma join_cells_error: "join_cells d vs = Inl e \<Longrightarrow> e = TypeError"
  by (auto simp: join_cells_def split: if_splits)

lemma fold_subset_error:
  "fold_subset cols gc tc sid st name sub_df = Inl e \<Longrightarrow> e = TypeError \<or> (\<exists>c. e = KeyError c)"
  unfolding fold_subset_def Let_def
  by (auto split: sum.splits dest: getitem_error join_cells_error)

lemma select_subset_error:
  "select_subset int_str sessions count_from g = Inl e \<Longrightarrow>
   (\<exists>m. e = ValueError m) \<and> sessions \<noteq> PStr ''All''
   \<and> (py_int int_str sessions = None \<or> (lower count_from \<noteq> ''first'' \<and> lower count_from \<noteq> ''last''))"
  by (auto simp: select_subset_def split: if_splits option.splits)

lemma select_subset_invalid:
  "sessions \<noteq> PStr ''All'' \<Longrightarrow>
   py_int int_str sessions = None \<or> (lower count_from \<noteq> ''first'' \<and> lower count_from \<noteq> ''last'') \<Longrightarrow>
   \<exists>m. select_subset int_str sessions count_from g = Inl (ValueError m)"
  by (auto simp: select_subset_def split: option.splits)

lemma group_body_All:
  "group_body int_str cols gc tc sid st (PStr ''All'') count_from =
   (\<lambda>g. fold_subset cols gc tc sid st (fst g) (snd g))"
  by (rule ext) (simp add: group_body_def select_subset_All)

section \<open>The window of a group\<close>

lemma select_subset_first:
  "sessions \<noteq> PStr ''All'' \<Longrightarrow> py_int int_str sessions = Some n \<Longrightarrow>
   lower count_from = ''first'' \<Longrightarrow>
   select_subset int_str sessions count_from g = Inr (head g n)"
  by (simp add: select_subset_def)

lemma select_subset_last:
  "sessions \<noteq> PStr ''All'' \<Longrightarrow> py_int int_str sessions = Some n \<Longrightarrow>
   lower count_from = ''last'' \<Longrightarrow>
   select_subset int_str sessions count_from g = Inr (tail g n)"
proof -
  assume a: "sessions \<noteq> PStr ''All''" and b: "py_int int_str sessions = Some n"
    and c: "lower count_from = ''last''"
  have "''last'' \<noteq> ''first''" by simp
  with a b c show ?thesis by (simp add: select_subset_def)
qed

lemma head_nonnegative: "0 \<le> n \<Longrightarrow> head xs n = take (nat n) xs"
  by (simp add: head_def slice_to_def)

lemma tail_nonnegative: "0 \<le> n \<Longrightarrow> tail xs n = drop (length xs - nat n) xs"
proof -
  assume n: "0 \<le> n"
  show ?thesis
  proof (cases "n = 0")
    case True
    then show ?thesis by (simp add: tail_def)
  next
    case False
    with n have "nat (int (length xs) - n) = length xs - nat n" by linarith
    with n False show ?thesis by (simp add: tail_def slice_from_def)
  qed
qed

lemma head_negative: "0 < k \<Longrightarrow> head xs (- int k) = take (length xs - k) xs"
proof -
  assume "0 < k"
  moreover have "nat (int (length xs) - int k) = length xs - k" by linarith
  ultimately show ?thesis by (simp add: head_def slice_to_def)
qed

lemma tail_negative: "0 < k \<Longrightarrow> tail xs (- int k) = drop k xs"
  by (simp add: tail_def slice_from_def)

lemma group_body_window:
  "select_subset int_str sessions count_from group_df = Inr sub_df \<Longrightarrow>
   group_body int_str cols gc tc sid st sessions count_from (group_name, group_df) =
   fold_subset cols gc tc sid st group_name sub_df"
  by (simp add: group_body_def)

text \<open>
  Claim C5. Let \<^verbatim>\<open>sessions\<close> be a bounded value (not \<^verbatim>\<open>'All'\<close>) that \<^verbatim>\<open>int\<close> converts to a
  non-negative \<open>N\<close>, and \<^verbatim>\<open>count_from\<close> be \<^verbatim>\<open>first\<close> or \<^verbatim>\<open>last\<close> in any letter case
  (any other value raises and folds nothing). Then what the loop body does with a
  group is the fold of a window of that group, and nothing else of the group enters
  the record; the window has \<open>min N (group size)\<close> rows: the first \<open>N\<close> rows or the
  last \<open>N\<close> rows, and the whole group when \<open>N\<close> is at least the group size.
\<close>

theorem group_body_window_bound:
  assumes "sessions \<noteq> PStr ''All''" and "py_int int_str sessions = Some N" and "0 \<le> N"
    and "lower count_from = ''first'' \<or> lower count_from = ''last''"
  shows "\<exists>sub_df.
       select_subset int_str sessions count_from group_df = Inr sub_df
     \<and> group_body int_str cols group_column target_column session_id subscription_type
          sessions count_from (group_name, group_df) =
        fold_subset cols group_column target_column session_id subscription_type
          group_name sub_df
     \<and> length sub_df = min (nat N) (length group_df)
     \<and> (lower count_from = ''first'' \<longrightarrow> sub_df = take (nat N) group_df)
     \<and> (lower count_from = ''last'' \<longrightarrow> sub_df = drop (length group_df - nat N) group_df)
     \<and> (length group_df \<le> nat N \<longrightarrow> sub_df = group_df)"
  using assms(4)
proof
  assume f: "lower count_from = ''first''"
  have sel: "select_subset int_str sessions count_from group_df = Inr (take (nat N) group_df)"
    using select_subset_first [OF assms(1,2) f] head_nonnegative [OF assms(3)] by simp
  have "lower count_from \<noteq> ''last''" using f by simp
  with sel group_body_window [OF sel] show ?thesis by simp
next
  assume l: "lower count_from = ''last''"
  have sel: "select_subset int_str sessions count_from group_df =
               Inr (drop (length group_df - nat N) group_df)"
    using select_subset_last [OF assms(1,2) l] tail_nonnegative [OF assms(3)] by simp
  have "lower count_from \<noteq> ''first''" using l by simp
  with sel group_body_window [OF sel] show ?thesis by auto
qed

text \<open>
  The three sessions of user \<open>u1\<close> in \<open>visits\<close>, in sorted order, with
  \<^verbatim>\<open>sessions = '2'\<close> and \<^verbatim>\<open>count_from = 'Last'\<close>: the record folds the last two. The
  conversion is given at the one string the run converts: \<^verbatim>\<open>int('2')\<close> is 2.
\<close>

theorem group_body_window_bound_witness:
  "PStr ''2'' \<noteq> PStr ''All'' \<and> py_int [''2'' \<mapsto> 2] (PStr ''2'') = Some 2 \<and> (0::int) \<le> 2
   \<and> (lower ''Last'' = ''first'' \<or> lower ''Last'' = ''last'')
   \<and> group_body [''2'' \<mapsto> 2] (columns visits) ''user_id'' ''user_journey'' ''session_id''
        ''subscription_type'' (PStr ''2'') ''Last''
        (Str ''u1'',
         [[(''user_id'', Str ''u1''), (''session_id'', Num 1),
           (''subscription_type'', Str ''free''), (''user_journey'', Str ''A-B'')],
          [(''user_id'', Str ''u1''), (''session_id'', Num 2),
           (''subscription_type'', Str ''pro''), (''user_journey'', Str ''B-C'')],
          [(''user_id'', Str ''u1''), (''session_id'', Num 2),
           (''subscription_type'', Str ''free''), (''user_journey'', Str ''C-D'')]]) =
      Inr [(''user_id'', Str ''u1''), (''session_id'', Str ''2-2''),
           (''subscription_type'', Str ''pro-free''), (''user_journey'', Str ''B-C-C-D'')]"
proof -
  let ?g = "[[(''user_id'', Str ''u1''), (''session_id'', Num 1),
           (''subscription_type'', Str ''free''), (''user_journey'', Str ''A-B'')],
          [(''user_id'', Str ''u1''), (''session_id'', Num 2),
           (''subscription_type'', Str ''pro''), (''user_journey'', Str ''B-C'')],
          [(''user_id'', Str ''u1''), (''session_id'', Num 2),
           (''subscription_type'', Str ''free''), (''user_journey'', Str ''C-D'')]]"
  have a: "PStr ''2'' \<noteq> PStr ''All''" by simp
  have b: "py_int [''2'' \<mapsto> 2] (PStr ''2'') = Some 2" by simp
  have c: "(0::int) \<le> 2" by simp
  have d: "lower ''Last'' = ''first'' \<or> lower ''Last'' = ''last''" by code_simp
  have l: "lower ''Last'' = ''last''" by code_simp
  from group_body_window_bound [OF a b c d, where cols = "columns visits"
         and group_column = "''user_id''" and target_column = "''user_journey''"
         and session_id = "''session_id''" and subscription_type = "''subscription_type''"
         and group_name = "Str ''u1''" and group_df = ?g] l
  have "group_body [''2'' \<mapsto> 2] (columns visits) ''user_id'' ''user_journey'' ''session_id''
        ''subscription_type'' (PStr ''2'') ''Last'' (Str ''u1'', ?g) =
      fold_subset (columns visits) ''user_id'' ''user_journey'' ''session_id''
        ''subscription_type'' (Str ''u1'') (drop (length ?g - nat 2) ?g)"
    by auto
  moreover have "fold_subset (columns visits) ''user_id'' ''user_journey'' ''session_id''
        ''subscription_type'' (Str ''u1'') (drop (length ?g - nat 2) ?g) =
      Inr [(''user_id'', Str ''u1''), (''session_id'', Str ''2-2''),
           (''subscription_type'', Str ''pro-free''), (''user_journey'', Str ''B-C-C-D'')]"
    by code_simp
  ultimately show ?thesis using a b c d by simp
qed

text \<open>
  Claim C10. A bounded \<^verbatim>\<open>sessions\<close> value that \<^verbatim>\<open>int\<close> converts to a negative integer
  \<open>- k\<close> raises no invalid-parameter error: counting from \<^verbatim>\<open>first\<close> the loop body folds
  the group without its last \<open>k\<close> rows, counting from \<^verbatim>\<open>last\<close> it folds the group without
  its first \<open>k\<close> rows; both windows are empty when \<open>k\<close> is at least the group size.
\<close>

theorem group_body_negative:
  assumes "sessions \<noteq> PStr ''All''" and "py_int int_str sessions = Some (- int k)" and "0 < k"
  shows "(lower count_from = ''first'' \<longrightarrow>
            select_subset int_str sessions count_from group_df =
              Inr (take (length group_df - k) group_df)
          \<and> group_body int_str cols group_column target_column session_id subscription_type
               sessions count_from (group_name, group_df) =
             fold_subset cols group_column target_column session_id subscription_type
               group_name (take (length group_df - k) group_df))
     \<and> (lower count_from = ''last'' \<longrightarrow>
            select_subset int_str sessions count_from group_df = Inr (drop k group_df)
          \<and> group_body int_str cols group_column target_column session_id subscription_type
               sessions count_from (group_name, group_df) =
             fold_subset cols group_column target_column session_id subscription_type
               group_name (drop k group_df))
     \<and> (lower count_from = ''first'' \<or> lower count_from = ''last'' \<longrightarrow>
          (\<forall>msg. group_body int_str cols group_column target_column session_id
                   subscription_type sessions count_from (group_name, group_df) \<noteq>
                 Inl (ValueError msg)))
     \<and> (length group_df \<le> k \<longrightarrow>
            take (length group_df - k) group_df = [] \<and> drop k group_df = [])"
proof -
  have first: "select_subset int_str sessions count_from group_df =
                 Inr (take (length group_df - k) group_df)"
    if "lower count_from = ''first''"
    using select_subset_first [OF assms(1,2) that] head_negative [OF assms(3)] by simp
  have last: "select_subset int_str sessions count_from group_df = Inr (drop k group_df)"
    if "lower count_from = ''last''"
    using select_subset_last [OF assms(1,2) that] tail_negative [OF assms(3)] by simp
  have noerr: "group_body int_str cols group_column target_column session_id
                   subscription_type sessions count_from (group_name, group_df) \<noteq>
                 Inl (ValueError msg)"
    if "lower count_from = ''first'' \<or> lower count_from = ''last''" for msg
  proof -
    from that first last obtain sub_df where
      "select_subset int_str sessions count_from group_df = Inr sub_df" by blast
    from group_body_window [OF this] show ?thesis
      using fold_subset_error by fastforce
  qed
  have empty: "take (length group_df - k) group_df = [] \<and> drop k group_df = []"
    if "length group_df \<le> k"
    using that by simp
  from first last noerr empty group_body_window show ?thesis by metis
qed

text \<open>
  Three rows and \<^verbatim>\<open>sessions = '-1'\<close>, where \<^verbatim>\<open>int('-1')\<close> is -1: counting from the first
  the last row is left out, counting from the last the first row is left out, and of a
  single row nothing stays.
\<close>

theorem group_body_negative_witness:
  "PStr ''-1'' \<noteq> PStr ''All'' \<and> py_int [''-1'' \<mapsto> - 1] (PStr ''-1'') = Some (- int 1)
   \<and> (0::nat) < 1 \<and> lower ''first'' = ''first'' \<and> lower ''LAST'' = ''last''
   \<and> select_subset [''-1'' \<mapsto> - 1] (PStr ''-1'') ''first''
        [[(''session_id'', Num 1)], [(''session_id'', Num 2)], [(''session_id'', Num 3)]]
       = Inr [[(''session_id'', Num 1)], [(''session_id'', Num 2)]]
   \<and> select_subset [''-1'' \<mapsto> - 1] (PStr ''-1'') ''LAST''
        [[(''session_id'', Num 1)], [(''session_id'', Num 2)], [(''session_id'', Num 3)]]
       = Inr [[(''session_id'', Num 2)], [(''session_id'', Num 3)]]
   \<and> select_subset [''-1'' \<mapsto> - 1] (PStr ''-1'') ''LAST'' [[(''session_id'', Num 1)]] = Inr []"
proof -
  let ?g = "[[(''session_id'', Num 1)], [(''session_id'', Num 2)], [(''session_id'', Num 3)]]"
  let ?i = "[''-1'' \<mapsto> - 1] :: string \<Rightarrow> int option"
  have n: "PStr ''-1'' \<noteq> PStr ''All''" by simp
  have a: "py_int ?i (PStr ''-1'') = Some (- int 1)" by simp
  have b: "(0::nat) < 1" by simp
  have c: "lower ''first'' = ''first''" by code_simp
  have d: "lower ''LAST'' = ''last''" by code_simp
  from group_body_negative [OF n a b, where count_from = "''first''" and group_df = ?g] c
  have e: "select_subset ?i (PStr ''-1'') ''first'' ?g =
             Inr [[(''session_id'', Num 1)], [(''session_id'', Num 2)]]"
    by simp
  from group_body_negative [OF n a b, where count_from = "''LAST''" and group_df = ?g] d
  have f: "select_subset ?i (PStr ''-1'') ''LAST'' ?g =
             Inr [[(''session_id'', Num 2)], [(''session_id'', Num 3)]]"
    by simp
  from group_body_negative [OF n a b, where count_from = "''LAST''" and group_df = "[[(''session_id'', Num 1)]]"] d
  have g: "select_subset ?i (PStr ''-1'') ''LAST'' [[(''session_id'', Num 1)]] = Inr []"
    by simp
  from n a b c d e f g show ?thesis by blast
qed

section \<open>Unique values in order of first occurrence\<close>

lemma unique_scan_set: "set (unique_scan seen xs) = set xs - set seen"
  by (induction xs arbitrary: seen) auto

lemma unique_scan_distinct: "distinct (unique_scan seen xs)"
  by (induction xs arbitrary: seen) (auto simp: unique_scan_set)

lemma unique_scan_first:
  "unique_scan seen xs =
   map (\<lambda>i. xs ! i) (filter (\<lambda>i. xs ! i \<notin> set seen \<union> set (take i xs)) [0..<length xs])"
proof (induction xs arbitrary: seen)
  case Nil
  then show ?case by simp
next
  case (Cons x xs)
  let ?idx = "\<lambda>s. filter (\<lambda>i. xs ! i \<notin> set s \<union> set (take i xs)) [0..<length xs]"
  have upt: "[0..<length (x # xs)] = 0 # map Suc [0..<length xs]"
    by (simp add: upt_conv_Cons map_Suc_upt del: upt_Suc)
  have "filter (\<lambda>i. (x # xs) ! i \<notin> set seen \<union> set (take i (x # xs))) (map Suc [0..<length xs]) =
        map Suc (?idx (x # seen))"
    unfolding filter_map by (rule arg_cong [where f = "map Suc"], rule filter_cong) auto
  then have step: "filter (\<lambda>i. (x # xs) ! i \<notin> set seen \<union> set (take i (x # xs)))
                     [0..<length (x # xs)] =
        (if x \<in> set seen then [] else [0]) @ map Suc (?idx (x # seen))"
    by (simp only: upt) simp
  have shift: "map (\<lambda>i. (x # xs) ! i) (map Suc js) = map (\<lambda>i. xs ! i) js" for js
    by simp
  show ?case
  proof (cases "x \<in> set seen")
    case True
    then have "set (x # seen) = set seen" by auto
    then have "?idx (x # seen) = ?idx seen" by simp
    with True Cons.IH [of seen] show ?thesis
      by (simp only: step shift unique_scan.simps if_True append_Nil)
  next
    case False
    with Cons.IH [of "x # seen"] show ?thesis
      by (simp only: step shift unique_scan.simps if_False) simp
  qed
qed

lemma unique_first_occurrences: "unique xs = first_occurrences xs"
  by (simp add: unique_def first_occurrences_def unique_scan_first)

lemma set_unique: "set (unique xs) = set xs"
  by (simp add: unique_def unique_scan_set)

lemma distinct_unique: "distinct (unique xs)"
  by (simp add: unique_def unique_scan_distinct)

section \<open>The record of a group\<close>

lemma cell_of_dict4:
  "cell_of (dict [(a, va), (b, vb), (c, vc), (d, vd)]) k =
     (if k = d then vd else if k = c then vc else if k = b then vb else if k = a then va else NaN)"
  by (simp add: dict_def cell_of_def update_conv')

lemma keys_dict4: "fst ` set (dict [(a, va), (b, vb), (c, vc), (d, vd)]) = {a, b, c, d}"
  by (auto simp: dict_def dom_update)

lemma fold_subset_Inr:
  assumes "fold_subset cols gc tc sid st name sub_df = Inr rec"
  shows "\<exists>j. join_cells ''-'' (map (\<lambda>r. cell_of r tc) sub_df) = Inr j \<and>
     rec = dict [(gc, name),
                 (sid, Str (py_join ''-'' (map py_str (map (\<lambda>r. cell_of r sid) sub_df)))),
                 (st, Str (py_join ''-'' (unique (map py_str (map (\<lambda>r. cell_of r st) sub_df))))),
                 (tc, Str j)]"
  using assms unfolding fold_subset_def Let_def getitem_def
  by (auto split: sum.splits if_splits)

text \<open>
  Claim C7. When the fold of a window succeeds (with the subscription column and the
  target column under different labels), the \<^verbatim>\<open>subscription_type\<close> field of the record
  is the hyphen-joined list of the stringified subscription values of the window, each
  value once, at the place of its first occurrence in the window.
\<close>

theorem fold_subset_subscription:
  assumes "fold_subset cols group_column target_column session_id subscription_type
             group_name sub_df = Inr rec"
    and "subscription_type \<noteq> target_column"
  shows "cell_of rec subscription_type =
           Str (py_join ''-''
                  (first_occurrences (map (\<lambda>r. py_str (cell_of r subscription_type)) sub_df)))
     \<and> distinct (first_occurrences (map (\<lambda>r. py_str (cell_of r subscription_type)) sub_df))
     \<and> set (first_occurrences (map (\<lambda>r. py_str (cell_of r subscription_type)) sub_df)) =
         set (map (\<lambda>r. py_str (cell_of r subscription_type)) sub_df)"
proof -
  let ?xs = "map (\<lambda>r. py_str (cell_of r subscription_type)) sub_df"
  from fold_subset_Inr [OF assms(1)] assms(2)
  have "cell_of rec subscription_type = Str (py_join ''-'' (unique ?xs))"
    by (auto simp: cell_of_dict4 o_def)
  moreover have "distinct (unique ?xs)" by (rule distinct_unique)
  moreover have "set (unique ?xs) = set ?xs" by (rule set_unique)
  ultimately show ?thesis by (simp only: unique_first_occurrences)
qed

theorem fold_subset_subscription_witness:
  "fold_subset (columns visits) ''user_id'' ''user_journey'' ''session_id'' ''subscription_type''
     (Str ''u1'') (filter (\<lambda>r. cell_of r ''user_id'' = Str ''u1'') (rows visits)) =
     Inr [(''user_id'', Str ''u1''), (''session_id'', Str ''2-1-2''),
          (''subscription_type'', Str ''pro-free''), (''user_journey'', Str ''B-C-A-B-C-D'')]
   \<and> ''subscription_type'' \<noteq> ''user_journey''
   \<and> first_occurrences [''pro'', ''free'', ''free''] = [''pro'', ''free'']"
proof -
  let ?rec = "[(''user_id'', Str ''u1''), (''session_id'', Str ''2-1-2''),
          (''subscription_type'', Str ''pro-free''), (''user_journey'', Str ''B-C-A-B-C-D'')]"
  have a: "fold_subset (columns visits) ''user_id'' ''user_journey'' ''session_id'' ''subscription_type''
     (Str ''u1'') (filter (\<lambda>r. cell_of r ''user_id'' = Str ''u1'') (rows visits)) = Inr ?rec"
    by code_simp
  have b: "''subscription_type'' \<noteq> ''user_journey''" by simp
  have c: "first_occurrences [''pro'', ''free'', ''free''] = [''pro'', ''free'']"
    by code_simp
  from fold_subset_subscription [OF a b] a b c show ?thesis by blast
qed

lemma group_body_key:
  assumes "group_body int_str cols gc tc sid st sessions cf g = Inr rec"
    and "gc \<noteq> tc" and "gc \<noteq> sid" and "gc \<noteq> st"
  shows "cell_of rec gc = fst g \<and> gc \<in> fst ` set rec"
proof -
  from assms(1) obtain sub_df where "fold_subset cols gc tc sid st (fst g) sub_df = Inr rec"
    by (auto simp: group_body_def split: sum.splits)
  from fold_subset_Inr [OF this] obtain a b c where rec: "rec = dict [(gc, fst g), (sid, a), (st, b), (tc, c)]"
    by blast
  show ?thesis using assms(2-4) by (simp add: rec cell_of_dict4 keys_dict4)
qed

section \<open>The grouping keys of the output\<close>

lemma cell_of_tabulate:
  "cell_of (map (\<lambda>c. (c, f c)) cols) k = (if k \<in> set cols then f k else NaN)"
  by (simp add: cell_of_def map_of_map_restrict restrict_map_def)

lemma DataFrame_column:
  assumes "\<forall>r \<in> set recs. c \<in> fst ` set r"
  shows "map (\<lambda>r. cell_of r c) (rows (DataFrame recs)) = map (\<lambda>r. cell_of r c) recs"
proof -
  have "c \<in> set (unique (concat (map (map fst) recs)))" if "r \<in> set recs" for r
    using that assms by (auto simp: set_unique)
  then show ?thesis
    by (simp add: DataFrame_def Let_def cell_of_tabulate o_def)
qed

lemma list_all2_keys:
  "list_all2 (\<lambda>g r. P g r) gs rs \<Longrightarrow> (\<And>g r. P g r \<Longrightarrow> k r = fst g) \<Longrightarrow> map k rs = map fst gs"
  by (induction gs rs rule: list_all2_induct) auto

text \<open>
  Claim C6, amended. When the Grouper succeeds (with the grouping column under a label
  of its own), the grouping keys of its output are the keys of the sorted table that
  are not missing, each once, in the order of their first appearance there; as a set
  they are the keys of the input without the missing value. As stated, with all keys
  of the input, the claim fails: rows whose key is missing belong to no group.
\<close>

theorem group_by_keys:
  assumes "group_by int_str data group_column target_column session_id subscription_type
             sessions count_from = Inr out"
    and "group_column \<noteq> target_column"
    and "group_column \<noteq> session_id"
    and "group_column \<noteq> subscription_type"
  shows "\<exists>data'. sort_values data [group_column, session_id] = Inr data'
     \<and> map (\<lambda>r. cell_of r group_column) (rows out) =
         first_occurrences
           (filter (\<lambda>k. k \<noteq> NaN) (map (\<lambda>r. cell_of r group_column) (rows data')))
     \<and> distinct (map (\<lambda>r. cell_of r group_column) (rows out))
     \<and> set (map (\<lambda>r. cell_of r group_column) (rows out)) =
         set (map (\<lambda>r. cell_of r group_column) (rows data)) - {NaN}"
proof -
  let ?key = "\<lambda>r. cell_of r group_column"
  from assms(1) obtain data' recs where
    srt: "sort_values data [group_column, session_id] = Inr data'"
    and loop: "group_loop (group_body int_str (columns data') group_column target_column session_id
                 subscription_type sessions count_from) (groupby data' group_column) [] = Inr recs"
    and out: "out = DataFrame recs"
    by (auto simp: group_by_def split: sum.splits)
  let ?body = "group_body int_str (columns data') group_column target_column session_id
                 subscription_type sessions count_from"
  from group_loop_Inr [OF loop]
  have all2: "list_all2 (\<lambda>g r. ?body g = Inr r) (groupby data' group_column) recs"
    by simp
  have has: "\<forall>r \<in> set recs. group_column \<in> fst ` set r"
  proof
    fix r assume "r \<in> set recs"
    then obtain i where "i < length recs" and "recs ! i = r"
      by (auto simp: in_set_conv_nth)
    with all2 have "?body (groupby data' group_column ! i) = Inr r"
      by (auto simp: list_all2_conv_all_nth)
    from group_body_key [OF this assms(2-4)] show "group_column \<in> fst ` set r" by simp
  qed
  have "map ?key recs = map fst (groupby data' group_column)"
    using all2
    by (rule list_all2_keys) (use group_body_key [OF _ assms(2-4)] in simp)
  then have keys: "map ?key (rows out) =
      unique (filter (\<lambda>k. k \<noteq> NaN) (map ?key (rows data')))"
    by (simp add: out DataFrame_column [OF has] groupby_def o_def)
  have "set (rows data') = set (rows data)"
    using sort_values_Inr [OF srt] by simp
  then have "set (map ?key (rows out)) = set (map ?key (rows data)) - {NaN}"
    by (auto simp: keys set_unique)
  moreover have "distinct (map ?key (rows out))"
    by (simp only: keys distinct_unique)
  ultimately show ?thesis
    using srt keys by (simp only: unique_first_occurrences) blast
qed

text \<open>
  The table \<open>visits\<close> with \<^verbatim>\<open>sessions = '2'\<close> (\<^verbatim>\<open>int('2')\<close> is 2) counted from the first.
\<close>

theorem group_by_keys_witness:
  "group_by [''2'' \<mapsto> 2] visits ''user_id'' ''user_journey'' ''session_id'' ''subscription_type''
      (PStr ''2'') ''first'' =
     Inr \<lparr>columns = [''user_id'', ''session_id'', ''subscription_type'', ''user_journey''],
          rows =
            [[(''user_id'', Str ''u1''), (''session_id'', Str ''1-2''),
              (''subscription_type'', Str ''free-pro''), (''user_journey'', Str ''A-B-B-C'')],
             [(''user_id'', Str ''u2''), (''session_id'', Str ''5''),
              (''subscription_type'', Str ''free''), (''user_journey'', Str ''A-B'')]]\<rparr>
   \<and> ''user_id'' \<noteq> ''user_journey'' \<and> ''user_id'' \<noteq> ''session_id''
   \<and> ''user_id'' \<noteq> ''subscription_type''
   \<and> set (map (\<lambda>r. cell_of r ''user_id'') (rows visits)) - {NaN} = {Str ''u1'', Str ''u2''}"
proof -
  let ?out = "\<lparr>columns = [''user_id'', ''session_id'', ''subscription_type'', ''user_journey''],
          rows =
            [[(''user_id'', Str ''u1''), (''session_id'', Str ''1-2''),
              (''subscription_type'', Str ''free-pro''), (''user_journey'', Str ''A-B-B-C'')],
             [(''user_id'', Str ''u2''), (''session_id'', Str ''5''),
              (''subscription_type'', Str ''free''), (''user_journey'', Str ''A-B'')]]\<rparr>"
  have a: "group_by [''2'' \<mapsto> 2] visits ''user_id'' ''user_journey'' ''session_id'' ''subscription_type''
      (PStr ''2'') ''first'' = Inr ?out"
    by code_simp
  have b: "''user_id'' \<noteq> ''user_journey''" by simp
  have c: "''user_id'' \<noteq> ''session_id''" by simp
  have d: "''user_id'' \<noteq> ''subscription_type''" by simp
  from group_by_keys [OF a b c d] a b c d show ?thesis
    by (auto simp: cell_of_def)
qed

text \<open>
  The table \<open>visits\<close> has a row without a user. The Grouper succeeds on it (with
  \<^verbatim>\<open>sessions = 'All'\<close>, which converts no string), and the keys of its output are not
  the keys of the input.
\<close>

theorem group_by_drops_missing_key:
  "group_by Map.empty visits ''user_id'' ''user_journey'' ''session_id'' ''subscription_type''
      (PStr ''All'') ''last'' = Inr visits_grouped
   \<and> getitem visits ''user_id'' = Inr [Str ''u2'', Str ''u1'', Str ''u1'', NaN, Str ''u1'']
   \<and> getitem visits_grouped ''user_id'' = Inr [Str ''u1'', Str ''u2'']
   \<and> set [Str ''u2'', Str ''u1'', Str ''u1'', NaN, Str ''u1''] \<noteq> set [Str ''u1'', Str ''u2'']"
  by code_simp

section \<open>Parameters and errors\<close>

lemma group_loop_succeeds:
  "\<forall>g \<in> set gs. \<exists>r. body g = Inr r \<Longrightarrow> \<exists>recs. group_loop body gs acc = Inr recs"
  by (induction gs arbitrary: acc) auto

lemma fold_subset_succeeds:
  assumes "target_column \<in> set cols" and "session_id \<in> set cols"
    and "subscription_type \<in> set cols"
    and "\<forall>r \<in> set sub_df. isinstance_str (cell_of r target_column)"
  shows "\<exists>rec. fold_subset cols group_column target_column session_id subscription_type
                  group_name sub_df = Inr rec"
proof -
  have "list_all isinstance_str (map (\<lambda>r. cell_of r target_column) sub_df)"
    using assms(4) by (simp add: list_all_iff)
  then show ?thesis
    using assms(1-3) by (simp add: fold_subset_def getitem_def join_cells_def Let_def)
qed

lemma groupby_rows: "g \<in> set (groupby df c) \<Longrightarrow> set (snd g) \<subseteq> set (rows df)"
  by (auto simp: groupby_def)

text \<open>
  Claim C9. With \<^verbatim>\<open>sessions = 'All'\<close> the result of the Grouper is the same for every
  \<^verbatim>\<open>count_from\<close>, it is never the invalid-parameter error, and the window of a group is
  the whole group. The call returns a table whenever the four columns exist and the
  target column holds strings (the only other failures are an unknown column and a
  join over a value that is not a string).
\<close>

theorem group_by_All_ignores_count_from:
  "group_by int_str data group_column target_column session_id subscription_type (PStr ''All'') count_from =
   group_by int_str data group_column target_column session_id subscription_type (PStr ''All'') count_from'
   \<and> (\<forall>msg. group_by int_str data group_column target_column session_id subscription_type
               (PStr ''All'') count_from \<noteq> Inl (ValueError msg))
   \<and> select_subset int_str (PStr ''All'') count_from group_df = Inr group_df
   \<and> ({group_column, target_column, session_id, subscription_type} \<subseteq> set (columns data)
        \<and> (\<forall>r \<in> set (rows data). isinstance_str (cell_of r target_column))
       \<longrightarrow> (\<exists>out. group_by int_str data group_column target_column session_id subscription_type
                      (PStr ''All'') count_from = Inr out))"
proof -
  have a: "group_by int_str data group_column target_column session_id subscription_type (PStr ''All'') count_from =
   group_by int_str data group_column target_column session_id subscription_type (PStr ''All'') count_from'"
    by (simp only: group_by_def group_body_All)
  have b: "group_by int_str data group_column target_column session_id subscription_type
               (PStr ''All'') count_from \<noteq> Inl (ValueError msg)" for msg
  proof
    assume bad: "group_by int_str data group_column target_column session_id subscription_type
               (PStr ''All'') count_from = Inl (ValueError msg)"
    show False
    proof (cases "sort_values data [group_column, session_id]")
      case (Inl e)
      with bad have "e = ValueError msg" by (simp add: group_by_def)
      with Inl show False using sort_values_error by fastforce
    next
      case (Inr data')
      let ?body = "\<lambda>g. fold_subset (columns data') group_column target_column session_id
                         subscription_type (fst g) (snd g)"
      from bad Inr have "group_loop ?body (groupby data' group_column) [] = Inl (ValueError msg)"
        by (simp add: group_by_def group_body_All split: sum.splits)
      then obtain g where "?body g = Inl (ValueError msg)"
        using group_loop_Inl by blast
      then show False using fold_subset_error by fastforce
    qed
  qed
  have c: "\<exists>out. group_by int_str data group_column target_column session_id subscription_type
                      (PStr ''All'') count_from = Inr out"
    if cols: "{group_column, target_column, session_id, subscription_type} \<subseteq> set (columns data)"
      and strs: "\<forall>r \<in> set (rows data). isinstance_str (cell_of r target_column)"
  proof -
    let ?data' = "data\<lparr>rows := sort_key (sort_keys [group_column, session_id]) (rows data)\<rparr>"
    let ?body = "\<lambda>g. fold_subset (columns ?data') group_column target_column session_id
                         subscription_type (fst g) (snd g)"
    have srt: "sort_values data [group_column, session_id] = Inr ?data'"
      using cols by (simp add: sort_values_ok)
    have "\<exists>r. ?body g = Inr r" if "g \<in> set (groupby ?data' group_column)" for g
    proof -
      have "set (snd g) \<subseteq> set (rows data)" using groupby_rows [OF that] by simp
      with strs have "\<forall>r \<in> set (snd g). isinstance_str (cell_of r target_column)" by blast
      then show ?thesis using cols by (intro fold_subset_succeeds) simp_all
    qed
    then obtain recs where "group_loop ?body (groupby ?data' group_column) [] = Inr recs"
      using group_loop_succeeds [of "groupby ?data' group_column" ?body "[]"] by blast
    then show ?thesis by (simp add: group_by_def srt group_body_All)
  qed
  from a b c select_subset_All show ?thesis by blast
qed

text \<open>
  The table \<open>visits\<close> with \<^verbatim>\<open>count_from = 'middle'\<close>; no string is converted, so the
  conversion is left empty.
\<close>

theorem group_by_All_ignores_count_from_witness:
  "{''user_id'', ''user_journey'', ''session_id'', ''subscription_type''} \<subseteq> set (columns visits)
   \<and> list_all (\<lambda>r. isinstance_str (cell_of r ''user_journey'')) (rows visits)
   \<and> lower ''middle'' \<noteq> ''first'' \<and> lower ''middle'' \<noteq> ''last''
   \<and> (\<exists>out. group_by Map.empty visits ''user_id'' ''user_journey'' ''session_id'' ''subscription_type''
                (PStr ''All'') ''middle'' = Inr out
         \<and> group_by Map.empty visits ''user_id'' ''user_journey'' ''session_id'' ''subscription_type''
                (PStr ''All'') ''last'' = Inr out)"
proof -
  have a: "{''user_id'', ''user_journey'', ''session_id'', ''subscription_type''} \<subseteq> set (columns visits)"
    by (simp add: visits_def)
  have b: "list_all (\<lambda>r. isinstance_str (cell_of r ''user_journey'')) (rows visits)"
    by (simp add: visits_def cell_of_def)
  then have b': "\<forall>r \<in> set (rows visits). isinstance_str (cell_of r ''user_journey'')"
    by (simp only: list_all_iff)
  have c: "lower ''middle'' \<noteq> ''first'' \<and> lower ''middle'' \<noteq> ''last''"
    by code_simp
  from group_by_All_ignores_count_from
         [of Map.empty visits "''user_id''" "''user_journey''" "''session_id''" "''subscription_type''"
             "''middle''" "''last''"] a b b' c
  show ?thesis by metis
qed

lemma groupby_not_Nil:
  "\<exists>r \<in> set (rows df). cell_of r c \<noteq> NaN \<Longrightarrow> groupby df c \<noteq> []"
proof -
  assume "\<exists>r \<in> set (rows df). cell_of r c \<noteq> NaN"
  then have "set (filter (\<lambda>k. k \<noteq> NaN) (map (\<lambda>r. cell_of r c) (rows df))) \<noteq> {}"
    by auto
  then have "unique (filter (\<lambda>k. k \<noteq> NaN) (map (\<lambda>r. cell_of r c) (rows df))) \<noteq> []"
    by (metis set_unique set_empty)
  then show ?thesis by (simp add: groupby_def)
qed

text \<open>
  The invalid-parameter error has one source, the window selection of the loop body:
  whatever the table, it is raised only for invalid parameters.
\<close>

lemma group_by_ValueError_only_invalid:
  assumes "group_by int_str data group_column target_column session_id subscription_type
             sessions count_from = Inl (ValueError msg)"
  shows "sessions \<noteq> PStr ''All'' \<and>
         (py_int int_str sessions = None \<or>
          (lower count_from \<noteq> ''first'' \<and> lower count_from \<noteq> ''last''))"
proof (cases "sort_values data [group_column, session_id]")
  case (Inl e)
  with assms have "e = ValueError msg" by (simp add: group_by_def)
  with Inl show ?thesis using sort_values_error by fastforce
next
  case (Inr data')
  let ?body = "group_body int_str (columns data') group_column target_column session_id
                 subscription_type sessions count_from"
  from assms Inr have "group_loop ?body (groupby data' group_column) [] = Inl (ValueError msg)"
    by (simp add: group_by_def split: sum.splits)
  then obtain g where "?body g = Inl (ValueError msg)"
    using group_loop_Inl by blast
  then have "select_subset int_str sessions count_from (snd g) = Inl (ValueError msg)"
    using fold_subset_error by (fastforce simp: group_body_def split: sum.splits)
  then show ?thesis using select_subset_error by blast
qed

text \<open>
  With at least one group (the two sort columns exist and some row has a grouping
  key), invalid parameters raise: the first run of the loop body selects the window.
\<close>

lemma group_by_invalid_raises:
  assumes "group_column \<in> set (columns data)" and "session_id \<in> set (columns data)"
    and "\<exists>r \<in> set (rows data). cell_of r group_column \<noteq> NaN"
    and "sessions \<noteq> PStr ''All''"
    and "py_int int_str sessions = None \<or>
         (lower count_from \<noteq> ''first'' \<and> lower count_from \<noteq> ''last'')"
  shows "\<exists>msg. group_by int_str data group_column target_column session_id subscription_type
                 sessions count_from = Inl (ValueError msg)"
proof -
  let ?data' = "data\<lparr>rows := sort_key (sort_keys [group_column, session_id]) (rows data)\<rparr>"
  let ?body = "group_body int_str (columns ?data') group_column target_column session_id
                 subscription_type sessions count_from"
  have srt: "sort_values data [group_column, session_id] = Inr ?data'"
    using assms(1,2) by (simp add: sort_values_ok)
  have "\<exists>r \<in> set (rows ?data'). cell_of r group_column \<noteq> NaN"
    using assms(3) by simp
  then have "groupby ?data' group_column \<noteq> []" by (rule groupby_not_Nil)
  then obtain g gs where gs: "groupby ?data' group_column = g # gs"
    by (cases "groupby ?data' group_column") auto
  from assms(4,5) obtain m where
    "select_subset int_str sessions count_from (snd g) = Inl (ValueError m)"
    using select_subset_invalid by blast
  then have "?body g = Inl (ValueError m)" by (simp add: group_body_def)
  then have "group_loop ?body (g # gs) [] = Inl (ValueError m)" by simp
  then show ?thesis using srt gs by (simp add: group_by_def)
qed

text \<open>
  Claim C1. The conversion of \<^verbatim>\<open>sessions\<close> and the test of \<^verbatim>\<open>count_from\<close> stand inside
  the loop over the groups, so a table without groups is never checked against them.
  On the table with the four columns and no rows, \<^verbatim>\<open>sessions = 'bogus'\<close> and
  \<^verbatim>\<open>count_from = 'middle'\<close> return an empty table, whatever \<^verbatim>\<open>int\<close> does with
  \<^verbatim>\<open>'bogus'\<close>, where the claim has the invalid-parameter error for every table; on
  \<open>visits\<close> the same two arguments raise it.
\<close>

theorem group_by_no_groups_accepts_invalid_parameters:
  "group_by int_str (visits\<lparr>rows := []\<rparr>) ''user_id'' ''user_journey'' ''session_id''
      ''subscription_type'' (PStr ''bogus'') ''middle'' = Inr \<lparr>columns = [], rows = []\<rparr>
   \<and> PStr ''bogus'' \<noteq> PStr ''All''
   \<and> lower ''middle'' \<noteq> ''first'' \<and> lower ''middle'' \<noteq> ''last''
   \<and> (\<exists>msg. group_by int_str visits ''user_id'' ''user_journey'' ''session_id''
               ''subscription_type'' (PStr ''bogus'') ''middle'' = Inl (ValueError msg))"
proof -
  have a: "group_by int_str (visits\<lparr>rows := []\<rparr>) ''user_id'' ''user_journey'' ''session_id''
      ''subscription_type'' (PStr ''bogus'') ''middle'' = Inr \<lparr>columns = [], rows = []\<rparr>"
    by (simp add: group_by_def sort_values_def visits_def groupby_def unique_def DataFrame_def)
  have b: "PStr ''bogus'' \<noteq> PStr ''All''" by simp
  have c: "lower ''middle'' \<noteq> ''first'' \<and> lower ''middle'' \<noteq> ''last''" by code_simp
  have d: "''user_id'' \<in> set (columns visits)" by (simp add: visits_def)
  have e: "''session_id'' \<in> set (columns visits)" by (simp add: visits_def)
  have f: "\<exists>r \<in> set (rows visits). cell_of r ''user_id'' \<noteq> NaN"
    by (simp add: visits_def cell_of_def)
  from c have "py_int int_str (PStr ''bogus'') = None \<or>
         (lower ''middle'' \<noteq> ''first'' \<and> lower ''middle'' \<noteq> ''last'')" by blast
  from group_by_invalid_raises [OF d e f b this] a b c show ?thesis by blast
qed

end
